theory Spec2Isabelle
  imports Main "HOL-Library.Word"
begin

unbundle bit_operations_syntax

section \<open>gorsa: loading RSA keys from PEM (load.go)\<close>

text \<open>
  The package has four entry points, \<open>LoadPrivateKey\<close>, \<open>LoadPrivateKeyFromFile\<close>,
  \<open>LoadPublicKey\<close> and \<open>LoadPublicKeyFromFile\<close>. They trim the buffer with
  \<open>bytes.TrimSpace\<close>, hand it to \<open>pem.Decode\<close>, decrypt the block when it is
  encrypted, try a fixed cascade of parsers on the block's bytes and narrow the result
  to an RSA key.

  \<open>bytes.TrimSpace\<close> is embedded below from Go's standard library, because the whitespace
  behaviour of the loaders is exactly its behaviour. The PEM, X.509 and ASN.1 parsers, the
  decryption helper and the file system are collaborators of the package: they are fields
  of a record \<open>lib\<close>, and every theorem holds for all of them.
\<close>

subsection \<open>Bytes and runes\<close>

type_synonym byte = "8 word"
type_synonym rune = "32 word"

text \<open>\<open>utf8.RuneError\<close> and \<open>utf8.RuneSelf\<close>.\<close>

definition RuneError :: rune where
  "RuneError = 0xFFFD"

definition RuneSelf :: byte where
  "RuneSelf = 0x80"

text \<open>
  The table \<open>first\<close> of package \<open>utf8\<close>, read together with \<open>acceptRanges\<close>: for a
  lead byte of a multi-byte sequence, the length of the sequence and the range the
  second byte must lie in; \<open>None\<close> for an ASCII byte (entry \<open>as\<close>) and for a byte that
  starts no sequence (entry \<open>xx\<close>).
\<close>

definition first :: "byte \<Rightarrow> (nat \<times> byte \<times> byte) option" where
  "first p0 =
     (if p0 < 0xC2 then None
      else if p0 \<le> 0xDF then Some (2, 0x80, 0xBF)
      else if p0 = 0xE0 then Some (3, 0xA0, 0xBF)
      else if p0 \<le> 0xEC then Some (3, 0x80, 0xBF)
      else if p0 = 0xED then Some (3, 0x80, 0x9F)
      else if p0 \<le> 0xEF then Some (3, 0x80, 0xBF)
      else if p0 = 0xF0 then Some (4, 0x90, 0xBF)
      else if p0 \<le> 0xF3 then Some (4, 0x80, 0xBF)
      else if p0 = 0xF4 then Some (4, 0x80, 0x8F)
      else None)"

text \<open>
  \<open>utf8.DecodeRune\<close>: the first rune of \<open>p\<close> and its width in bytes;
  \<open>(RuneError, 0)\<close> on the empty slice and \<open>(RuneError, 1)\<close> on an invalid encoding.
\<close>

definition DecodeRune :: "byte list \<Rightarrow> rune \<times> nat" where
  "DecodeRune p =
     (if length p < 1 then (RuneError, 0)
      else
        let p0 = p ! 0 in
        case first p0 of
          None \<Rightarrow> (if p0 < RuneSelf then ucast p0 else RuneError, 1)
        | Some (sz, lo, hi) \<Rightarrow>
            if length p < sz then (RuneError, 1)
            else
              let b1 = p ! 1 in
              if b1 < lo \<or> hi < b1 then (RuneError, 1)
              else if sz \<le> 2 then
                (push_bit 6 (ucast (p0 AND 0x1F)) OR ucast (b1 AND 0x3F), 2)
              else
                let b2 = p ! 2 in
                if b2 < 0x80 \<or> 0xBF < b2 then (RuneError, 1)
                else if sz \<le> 3 then
                  (push_bit 12 (ucast (p0 AND 0x0F)) OR push_bit 6 (ucast (b1 AND 0x3F))
                     OR ucast (b2 AND 0x3F), 3)
                else
                  let b3 = p ! 3 in
                  if b3 < 0x80 \<or> 0xBF < b3 then (RuneError, 1)
                  else
                    (push_bit 18 (ucast (p0 AND 0x07)) OR push_bit 12 (ucast (b1 AND 0x3F))
                       OR push_bit 6 (ucast (b2 AND 0x3F)) OR ucast (b3 AND 0x3F), 4))"

text \<open>\<open>utf8.RuneStart\<close>: the byte is not a continuation byte.\<close>

definition RuneStart :: "byte \<Rightarrow> bool" where
  "RuneStart b = (b AND 0xC0 \<noteq> 0x80)"

text \<open>
  The backward scan of \<open>utf8.DecodeLastRune\<close>:
  \<^verbatim>\<open>for start--; start >= lim; start-- { if RuneStart(p[start]) { break } }\<close>
  entered with \<open>start\<close> already decremented; the result is the value of \<open>start\<close> after
  the loop, which is \<open>lim - 1\<close> when no rune start was found.
\<close>

function scanBack :: "byte list \<Rightarrow> int \<Rightarrow> int \<Rightarrow> int" where
  "scanBack p start lim =
     (if start \<ge> lim then
        (if RuneStart (p ! nat start) then start else scanBack p (start - 1) lim)
      else start)"
  by pat_completeness auto
termination
  by (relation "measure (\<lambda>(p, start, lim). nat (start - lim + 1))") auto

declare scanBack.simps [simp del]

text \<open>\<open>utf8.DecodeLastRune\<close>: the last rune of \<open>p\<close> and its width.\<close>

definition DecodeLastRune :: "byte list \<Rightarrow> rune \<times> nat" where
  "DecodeLastRune p =
     (let end = int (length p) in
      if end = 0 then (RuneError, 0)
      else
        let start = end - 1; r = p ! nat start in
        if r < RuneSelf then (ucast r, 1)
        else
          let lim = (if end - 4 < 0 then 0 else end - 4);
              start = scanBack p (start - 1) lim;
              start = (if start < 0 then 0 else start);
              (r, size) = DecodeRune (drop (nat start) p)
          in if start + int size \<noteq> end then (RuneError, 1) else (r, size))"

text \<open>
  \<open>unicode.IsSpace\<close>: in the Latin-1 range the eight listed code points; above it the
  ranges of the table \<open>White_Space\<close>.
\<close>

definition IsSpace :: "rune \<Rightarrow> bool" where
  "IsSpace r =
     (if r \<le> 0xFF then r \<in> {0x09, 0x0A, 0x0B, 0x0C, 0x0D, 0x20, 0x85, 0xA0}
      else r = 0x1680 \<or> (0x2000 \<le> r \<and> r \<le> 0x200A) \<or> r = 0x2028 \<or> r = 0x2029
           \<or> r = 0x202F \<or> r = 0x205F \<or> r = 0x3000)"

text \<open>The table \<open>asciiSpace\<close> of package \<open>bytes\<close>.\<close>

definition asciiSpace :: "byte \<Rightarrow> bool" where
  "asciiSpace c = (c \<in> {0x09, 0x0A, 0x0B, 0x0C, 0x0D, 0x20})"

subsection \<open>Widths of decoded runes\<close>

lemma DecodeRune_size_pos: "p \<noteq> [] \<Longrightarrow> 0 < snd (DecodeRune p)"
  by (cases p) (auto simp: DecodeRune_def Let_def split: option.splits)

lemma first_sz: "first a = Some (sz, lo, hi) \<Longrightarrow> sz = 2 \<or> sz = 3 \<or> sz = 4"
  by (auto simp: first_def split: if_splits)

lemma DecodeRune_size_le: "snd (DecodeRune p) \<le> length p"
proof (cases p)
  case Nil
  then show ?thesis by (simp add: DecodeRune_def)
next
  case (Cons a list)
  show ?thesis
  proof (cases "first a")
    case None
    with Cons show ?thesis by (simp add: DecodeRune_def)
  next
    case (Some t)
    obtain sz lo hi where t: "t = (sz, lo, hi)" by (cases t) auto
    from Some t first_sz have "sz = 2 \<or> sz = 3 \<or> sz = 4" by blast
    with Cons Some t show ?thesis
      by (cases list; cases "tl list"; cases "tl (tl list)")
         (auto simp: DecodeRune_def Let_def)
  qed
qed

lemma scanBack_le: "scanBack p start lim \<le> start"
proof (induction p start lim rule: scanBack.induct)
  case (1 p start lim)
  show ?case
  proof (cases "start \<ge> lim \<and> \<not> RuneStart (p ! nat start)")
    case True
    with "1.IH" have "scanBack p (start - 1) lim \<le> start - 1" by simp
    with True show ?thesis by (subst scanBack.simps) simp
  next
    case False
    then show ?thesis by (subst scanBack.simps) auto
  qed
qed

lemma DecodeLastRune_size_pos:
  assumes ne: "p \<noteq> []" shows "0 < snd (DecodeLastRune p)"
proof -
  define e where "e = int (length p)"
  define st where "st = scanBack p (e - 1 - 1) (if e - 4 < 0 then 0 else e - 4)"
  define st' where "st' = (if st < 0 then 0 else st)"
  have "st \<le> e - 2" unfolding st_def using scanBack_le [of p "e - 1 - 1"] by simp
  moreover have e1: "1 \<le> e" using ne unfolding e_def by (cases p) auto
  ultimately have "nat st' < length p" unfolding st'_def e_def by auto
  then have "drop (nat st') p \<noteq> []" by simp
  then have pos: "0 < snd (DecodeRune (drop (nat st') p))" by (rule DecodeRune_size_pos)
  have "DecodeLastRune p =
     (if p ! nat (e - 1) < RuneSelf then (ucast (p ! nat (e - 1)), 1)
      else case DecodeRune (drop (nat st') p) of
        (r, sz) \<Rightarrow> if st' + int sz \<noteq> e then (RuneError, 1) else (r, sz))"
    using ne unfolding DecodeLastRune_def Let_def st'_def st_def e_def by simp
  with pos show ?thesis by (auto split: prod.splits)
qed


subsection \<open>Package bytes: trimming\<close>

text \<open>
  \<open>bytes.indexFunc\<close>: the index of the first rune of \<open>s\<close>, from \<open>start\<close> on, with
  \<open>f r = truth\<close>, or \<open>-1\<close>. The source's loop variable \<open>start\<close> is the last argument;
  the source enters the loop with \<open>start = 0\<close>.
\<close>

function indexFunc :: "byte list \<Rightarrow> (rune \<Rightarrow> bool) \<Rightarrow> bool \<Rightarrow> nat \<Rightarrow> int" where
  "indexFunc s f truth start =
     (if start < length s then
        let (r, wid) = (if s ! start \<ge> RuneSelf then DecodeRune (drop start s)
                        else (ucast (s ! start), 1))
        in if f r = truth then int start else indexFunc s f truth (start + wid)
      else - 1)"
  by pat_completeness auto
termination
proof (relation "measure (\<lambda>(s, f, truth, start). length s - start)", goal_cases)
  case 1
  show ?case by simp
next
  case (2 s f truth start x r wid)
  have "0 < wid"
  proof (cases "s ! start \<ge> RuneSelf")
    case True
    with 2 have "wid = snd (DecodeRune (drop start s))" by (metis snd_conv)
    moreover from 2 have "drop start s \<noteq> []" by simp
    ultimately show ?thesis using DecodeRune_size_pos by simp
  next
    case False
    with 2 show ?thesis by simp
  qed
  with 2 show ?case by simp
qed

declare indexFunc.simps [simp del]

text \<open>
  \<open>bytes.lastIndexFunc\<close>: the index of the last rune of \<open>s\<close> with \<open>f r = truth\<close>, or
  \<open>-1\<close>. The source's loop runs \<open>i\<close> down from \<open>len(s)\<close> and reads only \<open>s[0:i]\<close>;
  the argument of the recursion is that prefix, so \<open>i\<close> is its length.
\<close>

function lastIndexFunc :: "byte list \<Rightarrow> (rune \<Rightarrow> bool) \<Rightarrow> bool \<Rightarrow> int" where
  "lastIndexFunc s f truth =
     (let i = length s in
      if i > 0 then
        let (r, sz) = (if s ! (i - 1) \<ge> RuneSelf then DecodeLastRune s
                       else (ucast (s ! (i - 1)), 1));
            i = i - sz
        in if f r = truth then int i else lastIndexFunc (take i s) f truth
      else - 1)"
  by pat_completeness auto
termination
proof (relation "measure (\<lambda>(s, f, truth). length s)", goal_cases)
  case 1
  show ?case by simp
next
  case (2 s f truth i x r sz i')
  have "0 < sz"
  proof (cases "s ! (i - 1) \<ge> RuneSelf")
    case True
    with 2 have "sz = snd (DecodeLastRune s)" by (metis snd_conv)
    moreover from 2 have "s \<noteq> []" by auto
    ultimately show ?thesis using DecodeLastRune_size_pos by simp
  next
    case False
    with 2 show ?thesis by simp
  qed
  with 2 show ?case by simp
qed

declare lastIndexFunc.simps [simp del]

text \<open>\<open>bytes.TrimLeftFunc\<close>; Go's \<open>nil\<close> slice is the empty list.\<close>

definition TrimLeftFunc :: "byte list \<Rightarrow> (rune \<Rightarrow> bool) \<Rightarrow> byte list" where
  "TrimLeftFunc s f =
     (let i = indexFunc s f False 0 in
      if i = - 1 then [] else drop (nat i) s)"

text \<open>\<open>bytes.TrimRightFunc\<close>.\<close>

definition TrimRightFunc :: "byte list \<Rightarrow> (rune \<Rightarrow> bool) \<Rightarrow> byte list" where
  "TrimRightFunc s f =
     (let i = lastIndexFunc s f False;
          i = (if i \<ge> 0 \<and> s ! nat i \<ge> RuneSelf
               then i + int (snd (DecodeRune (drop (nat i) s)))
               else i + 1)
      in take (nat i) s)"

text \<open>\<open>bytes.TrimFunc\<close>.\<close>

definition TrimFunc :: "byte list \<Rightarrow> (rune \<Rightarrow> bool) \<Rightarrow> byte list" where
  "TrimFunc s f = TrimRightFunc (TrimLeftFunc s f) f"

text \<open>
  The two loops of \<open>bytes.TrimSpace\<close>. \<open>skipLeft s start\<close> is the first loop: it
  advances \<open>start\<close> over ASCII white space and stops at the end of \<open>s\<close>, at a byte
  that is not ASCII or at an ASCII byte that is not white space. \<open>skipRight s start stop\<close>
  is the second loop, moving \<open>stop\<close> down in the same way, never below \<open>start\<close>.
\<close>

function skipLeft :: "byte list \<Rightarrow> nat \<Rightarrow> nat" where
  "skipLeft s start =
     (if start < length s then
        (if s ! start \<ge> RuneSelf then start
         else if \<not> asciiSpace (s ! start) then start
         else skipLeft s (start + 1))
      else start)"
  by pat_completeness auto
termination
  by (relation "measure (\<lambda>(s, start). length s - start)") auto

declare skipLeft.simps [simp del]

fun skipRight :: "byte list \<Rightarrow> nat \<Rightarrow> nat \<Rightarrow> nat" where
  "skipRight s start 0 = 0"
| "skipRight s start (Suc n) =
     (if Suc n > start then
        (if s ! n \<ge> RuneSelf then Suc n
         else if \<not> asciiSpace (s ! n) then Suc n
         else skipRight s start n)
      else Suc n)"

text \<open>
  \<open>bytes.TrimSpace\<close>: the ASCII fast path, and \<open>TrimFunc\<close> with \<open>unicode.IsSpace\<close>
  on the rest as soon as either loop meets a byte that is not ASCII.
\<close>

definition TrimSpace :: "byte list \<Rightarrow> byte list" where
  "TrimSpace s =
     (let start = skipLeft s 0 in
      if start < length s \<and> s ! start \<ge> RuneSelf then TrimFunc (drop start s) IsSpace
      else
        let stop = skipRight s start (length s) in
        if stop > start \<and> s ! (stop - 1) \<ge> RuneSelf
        then TrimFunc (take (stop - start) (drop start s)) IsSpace
        else if start = stop then []
        else take (stop - start) (drop start s))"

section \<open>The data of load.go\<close>

subsection \<open>Keys\<close>

text \<open>
  \<open>rsa.PublicKey\<close> and \<open>rsa.PrivateKey\<close> with their exported fields. A \<open>*big.Int\<close>
  is \<open>None\<close> when it is \<open>nil\<close>; a slice is a list and \<open>nil\<close> is the empty list.
\<close>

record PublicKey =
  N :: "int option"
  E :: int

record CRTValue =
  Exp :: "int option"
  Coeff :: "int option"
  R :: "int option"

record PrecomputedValues =
  Dp :: "int option"
  Dq :: "int option"
  Qinv :: "int option"
  CRTValues :: "CRTValue list"

record PrivateKey =
  PublicKey :: PublicKey
  D :: "int option"
  Primes :: "int option list"
  Precomputed :: PrecomputedValues

text \<open>The zero values, which the named results \<open>key\<close> and \<open>pubkey\<close> hold on entry.\<close>

definition zero_PublicKey :: PublicKey where
  "zero_PublicKey = \<lparr>N = None, E = 0\<rparr>"

definition zero_PrivateKey :: PrivateKey where
  "zero_PrivateKey =
     \<lparr>PublicKey = zero_PublicKey, D = None, Primes = [],
      Precomputed = \<lparr>Dp = None, Dq = None, Qinv = None, CRTValues = []\<rparr>\<rparr>"

subsection \<open>Generic keys, blocks, errors\<close>

text \<open>
  The value of \<open>generalKey interface{}\<close> after a successful parse: a \<open>*rsa.PublicKey\<close>,
  a \<open>*rsa.PrivateKey\<close>, or a key of another dynamic type, of which the loaders use
  only the name that \<open>%T\<close> prints.
\<close>

datatype generalKey =
    RSAPublicKey PublicKey
  | RSAPrivateKey PrivateKey
  | OtherKey string

fun typeName :: "generalKey \<Rightarrow> string" where
  "typeName (RSAPublicKey k) = ''*rsa.PublicKey''"
| "typeName (RSAPrivateKey k) = ''*rsa.PrivateKey''"
| "typeName (OtherKey t) = t"

text \<open>\<open>pem.Block\<close>.\<close>

record Block =
  Type :: string
  Headers :: "(string \<times> string) list"
  Bytes :: "byte list"

text \<open>
  A non-nil \<open>error\<close>: one made in load.go by \<open>errors.New\<close> or \<open>fmt.Errorf\<close>, which
  is its text, or one made by a collaborator, which has a dynamic type and a text.
  \<open>Error\<close> is the method \<open>Error()\<close>. A Go \<open>error\<close> is an \<open>error option\<close>, \<open>None\<close>
  for \<open>nil\<close>.
\<close>

datatype error =
    errorString string
  | foreignError string string

fun Error :: "error \<Rightarrow> string" where
  "Error (errorString s) = s"
| "Error (foreignError ty s) = s"

subsection \<open>Collaborators\<close>

text \<open>
  What load.go calls outside itself and outside \<open>bytes.TrimSpace\<close>:
  \<^item> \<open>pem.Decode\<close>, of which the loaders keep the block and drop the rest; \<open>None\<close> is a
    \<open>nil\<close> block;
  \<^item> \<open>x509.IsEncryptedPEMBlock\<close>;
  \<^item> \<open>DecryptPEMBlock\<close>, a function of this package that load.go does not define; it
    returns a block pointer and an error, and nothing is assumed about the pair;
  \<^item> \<open>x509.ParsePKCS1PrivateKey\<close>, \<open>x509.ParsePKCS8PrivateKey\<close> and
    \<open>x509.ParsePKIXPublicKey\<close>, which return either an error or a key;
  \<^item> \<open>asn1.Unmarshal\<close> into a \<open>rsa.PrivateKey\<close> and into a \<open>rsa.PublicKey\<close>: the
    value it leaves in the zero-initialised variable \<open>x\<close>, and its error;
  \<^item> \<open>ioutil.ReadFile\<close>: the bytes it returns and its error;
  \<^item> \<open>strconv.Quote\<close>, which is how \<open>fmt\<close> prints a string under \<open>%q\<close>.
\<close>

record lib =
  pem_Decode :: "byte list \<Rightarrow> Block option"
  IsEncryptedPEMBlock :: "Block \<Rightarrow> bool"
  DecryptPEMBlock :: "Block \<Rightarrow> string \<Rightarrow> Block option \<times> error option"
  ParsePKCS1PrivateKey :: "byte list \<Rightarrow> error + PrivateKey"
  ParsePKCS8PrivateKey :: "byte list \<Rightarrow> error + generalKey"
  ParsePKIXPublicKey :: "byte list \<Rightarrow> error + generalKey"
  Unmarshal_PrivateKey :: "byte list \<Rightarrow> PrivateKey \<times> error option"
  Unmarshal_PublicKey :: "byte list \<Rightarrow> PublicKey \<times> error option"
  ReadFile :: "string \<Rightarrow> byte list \<times> error option"
  Quote :: "string \<Rightarrow> string"

text \<open>
  The calls a loader makes to its collaborators, with their arguments, in the order it
  makes them.
\<close>

datatype call =
    Call_ReadFile string
  | Call_Decode "byte list"
  | Call_IsEncrypted Block
  | Call_Decrypt Block string
  | Call_PKIX "byte list"
  | Call_PKCS1 "byte list"
  | Call_PKCS8 "byte list"
  | Call_UnmarshalPrivate "byte list"
  | Call_UnmarshalPublic "byte list"

text \<open>
  How a loader ends: it returns its two named results, or it panics (a \<open>nil\<close> block
  dereferenced by \<open>block.Type\<close>).
\<close>

datatype 'k result =
    Return 'k "error option"
  | Panic

section \<open>The loaders\<close>

text \<open>
  Both loaders open with the same statements (lines 16 to 32 and 86 to 102): trim,
  \<open>pem.Decode\<close>, and \<open>DecryptPEMBlock\<close> when the block is encrypted. \<open>decodeBlock\<close>
  is that opening. Its argument \<open>key\<close> is the named result of the loader, still the zero
  value. It gives the calls made and either how the loader ends there (\<open>Inl\<close>) or the
  block that reaches \<open>switch block.Type\<close> (\<open>Inr\<close>). When \<open>DecryptPEMBlock\<close> returns
  a \<open>nil\<close> error the loader goes on with the block pointer it returned; if that is
  \<open>nil\<close>, \<open>block.Type\<close> panics.
\<close>

definition decodeBlock :: "lib \<Rightarrow> 'k \<Rightarrow> byte list \<Rightarrow> string \<Rightarrow> call list \<times> ('k result + Block)" where
  "decodeBlock l key pembytes password =
     (let pembytes = TrimSpace pembytes in
      case pem_Decode l pembytes of
        None \<Rightarrow>
          ([Call_Decode pembytes],
           Inl (Return key (Some (errorString ''Invalid PEM key file''))))
      | Some block \<Rightarrow>
          if IsEncryptedPEMBlock l block then
            (case DecryptPEMBlock l block password of
               (b, Some err) \<Rightarrow>
                 ([Call_Decode pembytes, Call_IsEncrypted block, Call_Decrypt block password],
                  Inl (Return key (Some (errorString
                    (''Error decrypting PEM block: '' @ Error err)))))
             | (None, None) \<Rightarrow>
                 ([Call_Decode pembytes, Call_IsEncrypted block, Call_Decrypt block password],
                  Inl Panic)
             | (Some b, None) \<Rightarrow>
                 ([Call_Decode pembytes, Call_IsEncrypted block, Call_Decrypt block password],
                  Inr b))
          else ([Call_Decode pembytes, Call_IsEncrypted block], Inr block))"

text \<open>
  The cascade of \<open>LoadPrivateKey\<close> (lines 42 to 58) on \<open>block.Bytes\<close>: the calls made,
  and either the error that makes the loader return (\<open>Inl\<close>) or the value of
  \<open>generalKey\<close> at the type switch (\<open>Inr\<close>). The errors of the first two parsers are
  overwritten by the next assignment to \<open>err\<close>.
\<close>

definition privateCascade :: "lib \<Rightarrow> byte list \<Rightarrow> call list \<times> (error + generalKey)" where
  "privateCascade l bytes =
     (case ParsePKCS1PrivateKey l bytes of
        Inr k \<Rightarrow> ([Call_PKCS1 bytes], Inr (RSAPrivateKey k))
      | Inl err1 \<Rightarrow>
          (case ParsePKCS8PrivateKey l bytes of
             Inr g \<Rightarrow> ([Call_PKCS1 bytes, Call_PKCS8 bytes], Inr g)
           | Inl err2 \<Rightarrow>
               (case Unmarshal_PrivateKey l bytes of
                  (x, Some err) \<Rightarrow>
                    ([Call_PKCS1 bytes, Call_PKCS8 bytes, Call_UnmarshalPrivate bytes], Inl err)
                | (x, None) \<Rightarrow>
                    ([Call_PKCS1 bytes, Call_PKCS8 bytes, Call_UnmarshalPrivate bytes],
                     Inr (RSAPrivateKey x)))))"

text \<open>The type switch of \<open>LoadPrivateKey\<close> (lines 61 to 66).\<close>

definition narrowPrivate :: "PrivateKey \<Rightarrow> generalKey \<Rightarrow> PrivateKey result" where
  "narrowPrivate key generalKey =
     (case generalKey of
        RSAPrivateKey k \<Rightarrow> Return k None
      | _ \<Rightarrow> Return key (Some (errorString (''Unsupported key type '' @ typeName generalKey))))"

text \<open>
  \<open>LoadPrivateKey\<close> (lines 15 to 72): the list of calls made and how the function ends.
\<close>

definition LoadPrivateKey :: "lib \<Rightarrow> byte list \<Rightarrow> string \<Rightarrow> call list \<times> PrivateKey result" where
  "LoadPrivateKey l pembytes password =
     (let key = zero_PrivateKey in
      case decodeBlock l key pembytes password of
        (t, Inl res) \<Rightarrow> (t, res)
      | (t, Inr block) \<Rightarrow>
          if Type block = ''PRIVATE KEY'' \<or> Type block = ''ENCRYPTED PRIVATE KEY''
             \<or> Type block = ''RSA PRIVATE KEY''
          then
            (case privateCascade l (Bytes block) of
               (t2, Inl err) \<Rightarrow> (t @ t2, Return key (Some err))
             | (t2, Inr generalKey) \<Rightarrow> (t @ t2, narrowPrivate key generalKey))
          else
            (t, Return key (Some (errorString
               (''Unsupported PEM block type '' @ Quote l (Type block))))))"

text \<open>
  \<open>LoadPrivateKeyFromFile\<close> (lines 75 to 82). The error of \<open>ioutil.ReadFile\<close> is
  assigned to the named result \<open>err\<close> and is not read before the \<open>return\<close> statement
  replaces both results by those of \<open>LoadPrivateKey\<close>.
\<close>

definition LoadPrivateKeyFromFile :: "lib \<Rightarrow> string \<Rightarrow> string \<Rightarrow> call list \<times> PrivateKey result" where
  "LoadPrivateKeyFromFile l filename password =
     (let (b, err) = ReadFile l filename;
          b = TrimSpace b;
          (t, res) = LoadPrivateKey l b password
      in (Call_ReadFile filename # t, res))"

text \<open>The cascade of \<open>LoadPublicKey\<close> (lines 114 to 133).\<close>

definition publicCascade :: "lib \<Rightarrow> byte list \<Rightarrow> call list \<times> (error + generalKey)" where
  "publicCascade l bytes =
     (case ParsePKIXPublicKey l bytes of
        Inr g \<Rightarrow> ([Call_PKIX bytes], Inr g)
      | Inl err0 \<Rightarrow>
          (case ParsePKCS1PrivateKey l bytes of
             Inr k \<Rightarrow> ([Call_PKIX bytes, Call_PKCS1 bytes], Inr (RSAPrivateKey k))
           | Inl err1 \<Rightarrow>
               (case ParsePKCS8PrivateKey l bytes of
                  Inr g \<Rightarrow> ([Call_PKIX bytes, Call_PKCS1 bytes, Call_PKCS8 bytes], Inr g)
                | Inl err2 \<Rightarrow>
                    (case Unmarshal_PublicKey l bytes of
                       (x, Some err) \<Rightarrow>
                         ([Call_PKIX bytes, Call_PKCS1 bytes, Call_PKCS8 bytes,
                           Call_UnmarshalPublic bytes], Inl err)
                     | (x, None) \<Rightarrow>
                         ([Call_PKIX bytes, Call_PKCS1 bytes, Call_PKCS8 bytes,
                           Call_UnmarshalPublic bytes], Inr (RSAPublicKey x))))))"

text \<open>The type switch of \<open>LoadPublicKey\<close> (lines 136 to 146).\<close>

definition narrowPublic :: "PublicKey \<Rightarrow> generalKey \<Rightarrow> PublicKey result" where
  "narrowPublic pubkey generalKey =
     (case generalKey of
        RSAPublicKey k \<Rightarrow> Return k None
      | RSAPrivateKey k \<Rightarrow> Return (PublicKey k) None
      | _ \<Rightarrow> Return pubkey (Some (errorString (''Unsupported key type '' @ typeName generalKey))))"

text \<open>\<open>LoadPublicKey\<close> (lines 85 to 152).\<close>

definition LoadPublicKey :: "lib \<Rightarrow> byte list \<Rightarrow> string \<Rightarrow> call list \<times> PublicKey result" where
  "LoadPublicKey l pembytes password =
     (let pubkey = zero_PublicKey in
      case decodeBlock l pubkey pembytes password of
        (t, Inl res) \<Rightarrow> (t, res)
      | (t, Inr block) \<Rightarrow>
          if Type block = ''PUBLIC KEY'' \<or> Type block = ''PRIVATE KEY''
             \<or> Type block = ''ENCRYPTED PRIVATE KEY''
             \<or> Type block = ''RSA PUBLIC KEY'' \<or> Type block = ''RSA PRIVATE KEY''
          then
            (case publicCascade l (Bytes block) of
               (t2, Inl err) \<Rightarrow> (t @ t2, Return pubkey (Some err))
             | (t2, Inr generalKey) \<Rightarrow> (t @ t2, narrowPublic pubkey generalKey))
          else
            (t, Return pubkey (Some (errorString
               (''Unsupported PEM block type '' @ Quote l (Type block))))))"

text \<open>\<open>LoadPublicKeyFromFile\<close> (lines 155 to 162), written as its private twin is.\<close>

definition LoadPublicKeyFromFile :: "lib \<Rightarrow> string \<Rightarrow> string \<Rightarrow> call list \<times> PublicKey result" where
  "LoadPublicKeyFromFile l filename password =
     (let (b, err) = ReadFile l filename;
          b = TrimSpace b;
          (t, res) = LoadPublicKey l b password
      in (Call_ReadFile filename # t, res))"

section \<open>Sample collaborators\<close>

text \<open>
  A concrete key, a concrete block and a concrete set of collaborators, on which the
  loaders are run below. With \<open>lib0\<close> every parser rejects its input, \<open>pem.Decode\<close>
  finds the block \<open>block0\<close> in every buffer that is not empty, a block is encrypted when
  it has a \<open>DEK-Info\<close> header, decryption fails and no file can be read. The other
  sets are \<open>lib0\<close> with single collaborators replaced.
\<close>

definition key0 :: PrivateKey where
  "key0 = \<lparr>PublicKey = \<lparr>N = Some 3233, E = 17\<rparr>, D = Some 2753,
            Primes = [Some 61, Some 53],
            Precomputed = \<lparr>Dp = None, Dq = None, Qinv = None, CRTValues = []\<rparr>\<rparr>"

definition block0 :: Block where
  "block0 = \<lparr>Type = ''RSA PRIVATE KEY'', Headers = [], Bytes = [0x30, 0x03, 0x02, 0x01, 0x00]\<rparr>"

definition lib0 :: lib where
  "lib0 = \<lparr>
     pem_Decode = (\<lambda>bs. if bs = [] then None else Some block0),
     IsEncryptedPEMBlock = (\<lambda>b. map_of (Headers b) ''DEK-Info'' \<noteq> None),
     DecryptPEMBlock = (\<lambda>b pw. (None, Some (foreignError ''x509.IncorrectPasswordError''
        ''x509: decryption password incorrect''))),
     ParsePKCS1PrivateKey = (\<lambda>bs. Inl (foreignError ''asn1.StructuralError''
        ''asn1: structure error: tags do not match'')),
     ParsePKCS8PrivateKey = (\<lambda>bs. Inl (foreignError ''asn1.StructuralError''
        ''asn1: structure error: tags do not match'')),
     ParsePKIXPublicKey = (\<lambda>bs. Inl (foreignError ''asn1.StructuralError''
        ''asn1: structure error: tags do not match'')),
     Unmarshal_PrivateKey = (\<lambda>bs. (zero_PrivateKey\<lparr>D := Some 0\<rparr>,
        Some (foreignError ''asn1.SyntaxError'' ''asn1: syntax error: sequence truncated''))),
     Unmarshal_PublicKey = (\<lambda>bs. (zero_PublicKey\<lparr>N := Some 0\<rparr>,
        Some (foreignError ''asn1.SyntaxError'' ''asn1: syntax error: sequence truncated''))),
     ReadFile = (\<lambda>f. ([], Some (foreignError ''*fs.PathError''
        (''open '' @ f @ '': no such file or directory'')))),
     Quote = (\<lambda>s. [CHR 0x22] @ s @ [CHR 0x22])\<rparr>"

definition lib_pkcs1 :: lib where
  "lib_pkcs1 = lib0\<lparr>ParsePKCS1PrivateKey := (\<lambda>bs. Inr key0)\<rparr>"

definition lib_ec :: lib where
  "lib_ec = lib0\<lparr>ParsePKCS8PrivateKey := (\<lambda>bs. Inr (OtherKey ''*ecdsa.PrivateKey''))\<rparr>"

definition block_enc :: Block where
  "block_enc = \<lparr>Type = ''RSA PRIVATE KEY'',
       Headers = [(''Proc-Type'', ''4,ENCRYPTED''), (''DEK-Info'', ''DES-EDE3-CBC,0102030405060708'')],
       Bytes = [0x5A, 0x17, 0xC3, 0x99, 0x00, 0x21, 0x7E, 0x42]\<rparr>"

definition lib_enc :: lib where
  "lib_enc = lib0\<lparr>pem_Decode := (\<lambda>bs. if bs = [] then None else Some block_enc)\<rparr>"

definition block_lower :: Block where
  "block_lower = \<lparr>Type = ''rsa private key'', Headers = [], Bytes = [0x30, 0x03, 0x02, 0x01, 0x00]\<rparr>"

definition lib_lower :: lib where
  "lib_lower = lib0\<lparr>pem_Decode := (\<lambda>bs. if bs = [] then None else Some block_lower)\<rparr>"

text \<open>
  For the proofs about \<open>TrimSpace\<close>: a list without its trailing ASCII white space.
\<close>

definition trimR :: "byte list \<Rightarrow> byte list" where
  "trimR r = rev (dropWhile asciiSpace (rev r))"

section \<open>Properties of \<open>bytes.TrimSpace\<close>\<close>

lemma asciiSpace_lt: "asciiSpace c \<Longrightarrow> c < RuneSelf"
  by (auto simp: asciiSpace_def RuneSelf_def)

lemma asciiSpace_IsSpace: "asciiSpace c \<Longrightarrow> IsSpace (ucast c)"
  by (auto simp: asciiSpace_def IsSpace_def)

lemma first_lo: "first a = Some (sz, lo, hi) \<Longrightarrow> 0x80 \<le> lo"
  by (auto simp: first_def split: if_splits)

lemma DecodeRune_append:
  assumes "p \<noteq> []" and "\<forall>c\<in>set pad. c < RuneSelf"
  shows "DecodeRune (p @ pad) = DecodeRune p"
proof (cases "first (p ! 0)")
  case None
  with assms show ?thesis by (cases p) (simp_all add: DecodeRune_def)
next
  case (Some t)
  obtain sz lo hi where t: "t = (sz, lo, hi)" by (cases t) auto
  from Some t have sz: "sz = 2 \<or> sz = 3 \<or> sz = 4" and lo: "0x80 \<le> lo"
    using first_sz first_lo by blast+
  show ?thesis
  proof (cases pad)
    case Nil
    then show ?thesis by simp
  next
    case (Cons x xs)
    with assms(2) have x80: "x < 0x80" by (simp add: RuneSelf_def)
    with lo have xlo: "x < lo" by simp
    consider a where "p = [a]" | a b where "p = [a, b]" | a b c where "p = [a, b, c]"
      | a b c d r where "p = a # b # c # d # r"
      using assms(1)
      by (cases p; cases "tl p"; cases "tl (tl p)"; cases "tl (tl (tl p))") auto
    then show ?thesis
    proof cases
      case 1
      with Some t sz Cons x80 xlo show ?thesis
        by (auto simp: DecodeRune_def Let_def)
    next
      case 2
      with Some t sz Cons x80 xlo show ?thesis
        by (auto simp: DecodeRune_def Let_def)
    next
      case 3
      with Some t sz Cons x80 xlo show ?thesis
        by (auto simp: DecodeRune_def Let_def)
    next
      case 4
      with Some t sz show ?thesis
        by (auto simp: DecodeRune_def Let_def)
    qed
  qed
qed


lemma indexFunc_bounds:
  "indexFunc s f truth start = - 1 \<or>
   (int start \<le> indexFunc s f truth start \<and> indexFunc s f truth start < int (length s))"
proof (induction s f truth start rule: indexFunc.induct)
  case (1 s f truth start)
  show ?case
  proof (cases "start < length s")
    case False
    then show ?thesis by (subst (1 2 3) indexFunc.simps) simp
  next
    case True
    obtain r wid where rw: "(if s ! start \<ge> RuneSelf then DecodeRune (drop start s)
        else (ucast (s ! start), 1)) = (r, wid)" by (cases "(if s ! start \<ge> RuneSelf then DecodeRune (drop start s)
        else (ucast (s ! start), 1))") auto
    show ?thesis
    proof (cases "f r = truth")
      case t: True
      with True rw show ?thesis by (subst (1 2 3) indexFunc.simps) simp
    next
      case f: False
      from "1.IH" [OF True refl rw [symmetric] f]
      have "indexFunc s f truth (start + wid) = - 1 \<or>
        int (start + wid) \<le> indexFunc s f truth (start + wid) \<and>
        indexFunc s f truth (start + wid) < int (length s)" .
      moreover have "indexFunc s f truth start = indexFunc s f truth (start + wid)"
        using True rw f by (subst indexFunc.simps) simp
      ultimately show ?thesis by auto
    qed
  qed
qed

lemma indexFunc_pad_only:
  assumes pad: "\<forall>c\<in>set pad. asciiSpace c"
  shows "k \<le> length pad \<Longrightarrow> indexFunc (x @ pad) IsSpace False (length x + k) = - 1"
proof (induction "length pad - k" arbitrary: k)
  case 0
  then show ?case by (subst indexFunc.simps) simp
next
  case (Suc n)
  then have k: "k < length pad" by simp
  with pad have sp: "asciiSpace (pad ! k)" by simp
  from Suc have "indexFunc (x @ pad) IsSpace False (length x + Suc k) = - 1"
    by (intro Suc.hyps) simp_all
  moreover have "\<not> RuneSelf \<le> pad ! k" using asciiSpace_lt [OF sp] by simp
  ultimately show ?case
    using k asciiSpace_IsSpace [OF sp]
    by (subst indexFunc.simps) (simp add: nth_append)
qed

lemma indexFunc_append:
  assumes pad: "\<forall>c\<in>set pad. asciiSpace c"
  shows "start \<le> length x \<Longrightarrow>
    indexFunc (x @ pad) IsSpace False start = indexFunc x IsSpace False start"
proof (induction x IsSpace False start rule: indexFunc.induct)
  case (1 s start)
  show ?case
  proof (cases "start < length s")
    case False
    with 1(2) have "start = length s" by simp
    then show ?thesis
      using indexFunc_pad_only [OF pad, of 0 s]
      by (subst (2) indexFunc.simps) simp
  next
    case True
    have pad80: "\<forall>c\<in>set pad. c < RuneSelf" using pad asciiSpace_lt by blast
    obtain r wid where rw: "(if s ! start \<ge> RuneSelf then DecodeRune (drop start s)
        else (ucast (s ! start), 1)) = (r, wid)" by (cases "(if s ! start \<ge> RuneSelf then DecodeRune (drop start s)
        else (ucast (s ! start), 1))") auto
    have dr: "DecodeRune (drop start s @ pad) = DecodeRune (drop start s)"
      using True by (intro DecodeRune_append pad80) simp
    have rw': "(if (s @ pad) ! start \<ge> RuneSelf then DecodeRune (drop start (s @ pad))
        else (ucast ((s @ pad) ! start), 1)) = (r, wid)"
      using True rw dr by (cases "RuneSelf \<le> s ! start") (simp_all add: nth_append)
    have wid: "start + wid \<le> length s"
    proof (cases "s ! start \<ge> RuneSelf")
      case True
      with rw have "wid = snd (DecodeRune (drop start s))" by simp
      with DecodeRune_size_le [of "drop start s"] \<open>start < length s\<close> show ?thesis by simp
    next
      case False
      with rw \<open>start < length s\<close> show ?thesis by simp
    qed
    show ?thesis
    proof (cases "IsSpace r = False")
      case t: True
      with True rw rw' show ?thesis
        by (subst (1 2) indexFunc.simps) simp
    next
      case f: False
      from "1.hyps" [OF True refl rw [symmetric] f wid]
      have "indexFunc (s @ pad) IsSpace False (start + wid) =
            indexFunc s IsSpace False (start + wid)" .
      moreover have "indexFunc s IsSpace False start = indexFunc s IsSpace False (start + wid)"
        using True rw f by (subst indexFunc.simps) simp
      moreover have "indexFunc (s @ pad) IsSpace False start =
          indexFunc (s @ pad) IsSpace False (start + wid)"
        using True rw' f by (subst indexFunc.simps) simp
      ultimately show ?thesis by simp
    qed
  qed
qed


lemma lastIndexFunc_step:
  assumes "s \<noteq> []"
    and "(if s ! (length s - 1) \<ge> RuneSelf then DecodeLastRune s
          else (ucast (s ! (length s - 1)), 1)) = (r, sz)"
  shows "lastIndexFunc s f truth =
    (if f r = truth then int (length s - sz)
     else lastIndexFunc (take (length s - sz) s) f truth)"
proof -
  have "lastIndexFunc s f truth =
    (case (if s ! (length s - 1) \<ge> RuneSelf then DecodeLastRune s
          else (ucast (s ! (length s - 1)), 1)) of (r, sz) \<Rightarrow>
       if f r = truth then int (length s - sz)
       else lastIndexFunc (take (length s - sz) s) f truth)"
    using assms(1) by (subst lastIndexFunc.simps) (simp add: Let_def)
  then show ?thesis unfolding assms(2) by simp
qed

lemma lastIndexFunc_bounds:
  "lastIndexFunc s f truth = - 1 \<or>
   (0 \<le> lastIndexFunc s f truth \<and> lastIndexFunc s f truth < int (length s))"
proof (induction s f truth rule: lastIndexFunc.induct)
  case (1 s f truth)
  show ?case
  proof (cases "s = []")
    case True
    then show ?thesis by (subst (1 2 3) lastIndexFunc.simps) simp
  next
    case False
    then have ipos: "length s > 0" by simp
    obtain r sz where rw: "(if s ! (length s - 1) \<ge> RuneSelf then DecodeLastRune s
        else (ucast (s ! (length s - 1)), 1)) = (r, sz)"
      by (cases "(if s ! (length s - 1) \<ge> RuneSelf then DecodeLastRune s
        else (ucast (s ! (length s - 1)), 1))") auto
    have szpos: "0 < sz"
    proof (cases "s ! (length s - 1) \<ge> RuneSelf")
      case True
      with rw have "sz = snd (DecodeLastRune s)" by simp
      with DecodeLastRune_size_pos [OF False] show ?thesis by simp
    next
      case False
      with rw show ?thesis by simp
    qed
    note step = lastIndexFunc_step [OF False rw, of f truth]
    show ?thesis
    proof (cases "f r = truth")
      case True
      with step have "lastIndexFunc s f truth = int (length s - sz)" by simp
      with ipos szpos show ?thesis by auto
    next
      case f: False
      with step have eq: "lastIndexFunc s f truth = lastIndexFunc (take (length s - sz) s) f truth"
        by simp
      from "1.IH" [OF refl ipos refl rw [symmetric] refl f]
      have "lastIndexFunc (take (length s - sz) s) f truth = - 1 \<or>
        (0 \<le> lastIndexFunc (take (length s - sz) s) f truth \<and>
        lastIndexFunc (take (length s - sz) s) f truth
          < int (length (take (length s - sz) s)))" .
      with eq show ?thesis by auto
    qed
  qed
qed

lemma lastIndexFunc_snoc:
  assumes "asciiSpace c"
  shows "lastIndexFunc (y @ [c]) IsSpace False = lastIndexFunc y IsSpace False"
proof -
  have "\<not> RuneSelf \<le> c" using asciiSpace_lt [OF assms] by simp
  then show ?thesis
    using asciiSpace_IsSpace [OF assms]
    by (subst lastIndexFunc.simps) (simp add: Let_def)
qed

lemma lastIndexFunc_append:
  "\<forall>c\<in>set pad. asciiSpace c \<Longrightarrow>
   lastIndexFunc (y @ pad) IsSpace False = lastIndexFunc y IsSpace False"
proof (induction pad rule: rev_induct)
  case Nil
  then show ?case by simp
next
  case (snoc c pad)
  then have "lastIndexFunc ((y @ pad) @ [c]) IsSpace False = lastIndexFunc (y @ pad) IsSpace False"
    by (intro lastIndexFunc_snoc) simp
  with snoc show ?case by simp
qed

lemma TrimRightFunc_append:
  assumes pad: "\<forall>c\<in>set pad. asciiSpace c"
  shows "TrimRightFunc (y @ pad) IsSpace = TrimRightFunc y IsSpace"
proof -
  define i where "i = lastIndexFunc y IsSpace False"
  have li: "lastIndexFunc (y @ pad) IsSpace False = i"
    using lastIndexFunc_append [OF pad] by (simp add: i_def)
  have pad80: "\<forall>c\<in>set pad. c < RuneSelf" using pad asciiSpace_lt by blast
  show ?thesis
  proof (cases "i \<ge> 0")
    case False
    then show ?thesis by (simp add: TrimRightFunc_def li i_def [symmetric])
  next
    case True
    with lastIndexFunc_bounds [of y IsSpace False] have lt: "nat i < length y"
      by (auto simp: i_def)
    then have dr: "DecodeRune (drop (nat i) y @ pad) = DecodeRune (drop (nat i) y)"
      by (intro DecodeRune_append pad80) simp
    have "snd (DecodeRune (drop (nat i) y)) \<le> length y - nat i"
      using DecodeRune_size_le [of "drop (nat i) y"] by simp
    with lt True dr show ?thesis
      by (simp add: TrimRightFunc_def li i_def [symmetric] nth_append Let_def)
  qed
qed

lemma TrimFunc_append:
  assumes pad: "\<forall>c\<in>set pad. asciiSpace c"
  shows "TrimFunc (x @ pad) IsSpace = TrimFunc x IsSpace"
proof -
  define i where "i = indexFunc x IsSpace False 0"
  have ii: "indexFunc (x @ pad) IsSpace False 0 = i"
    using indexFunc_append [OF pad, of 0 x] by (simp add: i_def)
  show ?thesis
  proof (cases "i = - 1")
    case True
    then show ?thesis by (simp add: TrimFunc_def TrimLeftFunc_def ii i_def [symmetric])
  next
    case False
    with indexFunc_bounds [of x IsSpace False 0] have "nat i < length x" "0 \<le> i"
      by (auto simp: i_def)
    with False show ?thesis
      using TrimRightFunc_append [OF pad, of "drop (nat i) x"]
      by (simp add: TrimFunc_def TrimLeftFunc_def ii i_def [symmetric])
  qed
qed

lemma skipLeft_eq:
  "start \<le> length s \<Longrightarrow>
   skipLeft s start = start + length (takeWhile asciiSpace (drop start s))"
proof (induction s start rule: skipLeft.induct)
  case (1 s start)
  show ?case
  proof (cases "start < length s")
    case False
    with 1(2) show ?thesis by (subst skipLeft.simps) simp
  next
    case True
    then have dr: "drop start s = s ! start # drop (Suc start) s"
      by (simp add: Cons_nth_drop_Suc)
    show ?thesis
    proof (cases "asciiSpace (s ! start)")
      case False
      with True dr show ?thesis by (subst skipLeft.simps) simp
    next
      case sp: True
      then have n80: "\<not> RuneSelf \<le> s ! start" using asciiSpace_lt by fastforce
      from "1.IH" [OF True n80] sp True
      have "skipLeft s (start + 1) = start + 1 + length (takeWhile asciiSpace (drop (start + 1) s))"
        by simp
      with True sp n80 dr show ?thesis by (subst skipLeft.simps) simp
    qed
  qed
qed

lemma skipRight_eq:
  "start \<le> stop \<Longrightarrow> stop \<le> length s \<Longrightarrow>
   skipRight s start stop =
     stop - length (takeWhile asciiSpace (rev (take (stop - start) (drop start s))))"
proof (induction stop)
  case 0
  then show ?case by simp
next
  case (Suc n)
  show ?case
  proof (cases "start = Suc n")
    case True
    then show ?thesis by simp
  next
    case False
    with Suc.prems have le: "start \<le> n" and n: "n < length s" by simp_all
    have tk: "take (Suc n - start) (drop start s) = take (n - start) (drop start s) @ [s ! n]"
      using le n by (simp add: Suc_diff_le take_Suc_conv_app_nth)
    show ?thesis
    proof (cases "asciiSpace (s ! n)")
      case False
      with le tk show ?thesis by simp
    next
      case sp: True
      then have n80: "\<not> RuneSelf \<le> s ! n" using asciiSpace_lt by fastforce
      have "length (takeWhile asciiSpace (rev (take (n - start) (drop start s)))) \<le> n"
        by (rule order_trans [OF length_takeWhile_le]) simp
      with Suc.IH [OF le] n le sp n80 tk show ?thesis by simp
    qed
  qed
qed

lemma TrimSpace_alt:
  "TrimSpace s =
     (let r = dropWhile asciiSpace s in
      if r \<noteq> [] \<and> hd r \<ge> RuneSelf then TrimFunc r IsSpace
      else let q = trimR r in
        if q \<noteq> [] \<and> last q \<ge> RuneSelf then TrimFunc q IsSpace else q)"
proof -
  define start where "start = skipLeft s 0"
  define r where "r = dropWhile asciiSpace s"
  have start: "start = length (takeWhile asciiSpace s)"
    using skipLeft_eq [of 0 s] by (simp add: start_def)
  have r: "drop start s = r" by (simp add: start r_def dropWhile_eq_drop)
  have sl: "start \<le> length s" by (simp add: start length_takeWhile_le)
  have c1: "(start < length s \<and> s ! start \<ge> RuneSelf) = (r \<noteq> [] \<and> hd r \<ge> RuneSelf)"
    using r sl by (auto simp: hd_drop_conv_nth)
  define stop where "stop = skipRight s start (length s)"
  define q where "q = trimR r"
  have lr: "length r = length s - start" using r by (metis length_drop)
  have stop: "stop = length s - length (takeWhile asciiSpace (rev r))"
    using skipRight_eq [OF sl order_refl] r lr by (simp add: stop_def)
  have ltw: "length (takeWhile asciiSpace (rev r)) \<le> length r"
    by (rule order_trans [OF length_takeWhile_le]) simp
  have q: "take (stop - start) (drop start s) = q"
  proof -
    have "q = rev (drop (length (takeWhile asciiSpace (rev r))) (rev r))"
      by (simp add: q_def trimR_def dropWhile_eq_drop)
    also have "\<dots> = take (length r - length (takeWhile asciiSpace (rev r))) r"
      by (simp add: rev_drop)
    also have "length r - length (takeWhile asciiSpace (rev r)) = stop - start"
      using stop lr sl ltw by simp
    finally show ?thesis using r by simp
  qed
  have lq: "length q = stop - start"
    using q lr stop ltw sl by (metis length_take length_drop min.absorb2 diff_le_mono diff_le_self r)
  have c2: "(stop > start \<and> s ! (stop - 1) \<ge> RuneSelf) = (q \<noteq> [] \<and> last q \<ge> RuneSelf)"
  proof (cases "stop > start")
    case False
    with lq show ?thesis by simp
  next
    case True
    with lq have ne: "q \<noteq> []" by auto
    have "stop \<le> length s" using stop by simp
    have "last q = q ! (length q - 1)" using ne by (simp add: last_conv_nth)
    also have "\<dots> = (take (stop - start) (drop start s)) ! (stop - start - 1)"
      using q lq by simp
    also have "\<dots> = s ! (stop - 1)"
      using True \<open>stop \<le> length s\<close> by simp
    finally show ?thesis using True ne by simp
  qed
  have c3: "(start = stop) = (q = [])"
    using lq stop sl lr ltw by (metis diff_is_0_eq' length_0_conv le_antisym diff_le_mono2 diff_diff_cancel diff_zero le_refl nat_le_linear)
  have "TrimSpace s =
     (if start < length s \<and> s ! start \<ge> RuneSelf then TrimFunc (drop start s) IsSpace
      else if stop > start \<and> s ! (stop - 1) \<ge> RuneSelf
        then TrimFunc (take (stop - start) (drop start s)) IsSpace
      else if start = stop then []
      else take (stop - start) (drop start s))"
    by (simp add: TrimSpace_def Let_def start_def stop_def)
  also have "\<dots> =
     (if r \<noteq> [] \<and> hd r \<ge> RuneSelf then TrimFunc (drop start s) IsSpace
      else if q \<noteq> [] \<and> last q \<ge> RuneSelf then TrimFunc q IsSpace
      else if q = [] then [] else q)"
    by (simp only: c1 c2 c3 q)
  also have "\<dots> =
     (if r \<noteq> [] \<and> hd r \<ge> RuneSelf then TrimFunc r IsSpace
      else if q \<noteq> [] \<and> last q \<ge> RuneSelf then TrimFunc q IsSpace else q)"
    by (simp add: r)
  finally show ?thesis by (simp add: Let_def r_def q_def)
qed

lemma dropWhile_pad_left:
  "\<forall>c\<in>set pad. asciiSpace c \<Longrightarrow> dropWhile asciiSpace (pad @ b) = dropWhile asciiSpace b"
  by (induction pad) simp_all

lemma trimR_pad_right:
  "\<forall>c\<in>set pad. asciiSpace c \<Longrightarrow> trimR (b @ pad) = trimR b"
  by (simp add: trimR_def dropWhile_pad_left)

lemma TrimSpace_pad_right:
  assumes pad: "\<forall>c\<in>set pad. asciiSpace c"
  shows "TrimSpace (b @ pad) = TrimSpace b"
proof (cases "dropWhile asciiSpace b = []")
  case True
  then have all: "\<forall>c\<in>set b. asciiSpace c" by (simp add: dropWhile_eq_Nil_conv)
  then have pb: "dropWhile asciiSpace (b @ pad) = []"
    using pad by (simp add: dropWhile_eq_Nil_conv)
  show ?thesis by (simp only: TrimSpace_alt Let_def pb True)
next
  case False
  then have ex: "\<exists>c\<in>set b. \<not> asciiSpace c" by (auto simp: dropWhile_eq_Nil_conv)
  then have dw: "dropWhile asciiSpace (b @ pad) = dropWhile asciiSpace b @ pad"
    by (auto simp: dropWhile_append1)
  have hd: "hd (dropWhile asciiSpace b @ pad) = hd (dropWhile asciiSpace b)"
    using False by simp
  show ?thesis
    unfolding TrimSpace_alt [of "b @ pad"] TrimSpace_alt [of b] Let_def dw hd
    using False TrimFunc_append [OF pad] trimR_pad_right [OF pad]
    by simp
qed

lemma TrimSpace_pad_left:
  assumes pad: "\<forall>c\<in>set pad. asciiSpace c"
  shows "TrimSpace (pad @ b) = TrimSpace b"
  by (simp add: TrimSpace_alt dropWhile_pad_left [OF pad])

lemma TrimSpace_pad:
  assumes "\<forall>c\<in>set pre. asciiSpace c" and "\<forall>c\<in>set post. asciiSpace c"
  shows "TrimSpace (pre @ b @ post) = TrimSpace b"
  using TrimSpace_pad_left [OF assms(1), of "b @ post"] TrimSpace_pad_right [OF assms(2), of b]
  by simp

section \<open>Evaluating the sample collaborators\<close>

lemma lib0_simps:
  "pem_Decode lib0 bs = (if bs = [] then None else Some block0)"
  "IsEncryptedPEMBlock lib0 blk = (map_of (Headers blk) ''DEK-Info'' \<noteq> None)"
  "DecryptPEMBlock lib0 blk pw = (None, Some (foreignError ''x509.IncorrectPasswordError''
        ''x509: decryption password incorrect''))"
  "ParsePKCS1PrivateKey lib0 bs = Inl (foreignError ''asn1.StructuralError''
        ''asn1: structure error: tags do not match'')"
  "ParsePKCS8PrivateKey lib0 bs = Inl (foreignError ''asn1.StructuralError''
        ''asn1: structure error: tags do not match'')"
  "ParsePKIXPublicKey lib0 bs = Inl (foreignError ''asn1.StructuralError''
        ''asn1: structure error: tags do not match'')"
  "Unmarshal_PrivateKey lib0 bs = (zero_PrivateKey\<lparr>D := Some 0\<rparr>,
        Some (foreignError ''asn1.SyntaxError'' ''asn1: syntax error: sequence truncated''))"
  "Unmarshal_PublicKey lib0 bs = (zero_PublicKey\<lparr>N := Some 0\<rparr>,
        Some (foreignError ''asn1.SyntaxError'' ''asn1: syntax error: sequence truncated''))"
  "ReadFile lib0 f = ([], Some (foreignError ''*fs.PathError''
        (''open '' @ f @ '': no such file or directory'')))"
  "Quote lib0 s = [CHR 0x22] @ s @ [CHR 0x22]"
  by (simp_all add: lib0_def)

lemma TrimSpace_Nil: "TrimSpace [] = []"
  by (simp add: TrimSpace_def skipLeft.simps)

section \<open>Claims\<close>

lemma decodeBlock_reaches:
  assumes "pem_Decode l (TrimSpace b) = Some blk0"
    and "if IsEncryptedPEMBlock l blk0 then DecryptPEMBlock l blk0 pw = (Some blk, None)
         else blk = blk0"
  shows "decodeBlock l key b pw =
    ([Call_Decode (TrimSpace b), Call_IsEncrypted blk0]
       @ (if IsEncryptedPEMBlock l blk0 then [Call_Decrypt blk0 pw] else []), Inr blk)"
  using assms by (simp add: decodeBlock_def split: if_splits)

text \<open>
  Claim C2. For a block with one of the three private-key labels, \<open>LoadPrivateKey\<close>
  calls \<open>ParsePKCS1PrivateKey\<close> first, \<open>ParsePKCS8PrivateKey\<close> only when that failed, and
  \<open>asn1.Unmarshal\<close> into a \<open>rsa.PrivateKey\<close> only when both failed; the first success
  ends the cascade and decides the result, and when all three fail the error returned
  is the one of \<open>asn1.Unmarshal\<close>, the errors \<open>e1\<close> and \<open>e2\<close> of the earlier parsers
  being dropped. The block \<open>blk\<close> is the one \<open>pem.Decode\<close> found, or its decryption when
  it was encrypted; all parsers are given \<open>Bytes blk\<close>.
\<close>

theorem C2_private_cascade_order:
  assumes "pem_Decode l (TrimSpace b) = Some blk0"
    and "if IsEncryptedPEMBlock l blk0 then DecryptPEMBlock l blk0 pw = (Some blk, None)
         else blk = blk0"
    and "Type blk \<in> {''PRIVATE KEY'', ''ENCRYPTED PRIVATE KEY'', ''RSA PRIVATE KEY''}"
  shows "LoadPrivateKey l b pw =
    (let pre = [Call_Decode (TrimSpace b), Call_IsEncrypted blk0]
                 @ (if IsEncryptedPEMBlock l blk0 then [Call_Decrypt blk0 pw] else []);
         bs = Bytes blk
     in case ParsePKCS1PrivateKey l bs of
          Inr k \<Rightarrow> (pre @ [Call_PKCS1 bs], Return k None)
        | Inl e1 \<Rightarrow>
            (case ParsePKCS8PrivateKey l bs of
               Inr g \<Rightarrow> (pre @ [Call_PKCS1 bs, Call_PKCS8 bs], narrowPrivate zero_PrivateKey g)
             | Inl e2 \<Rightarrow>
                 (case Unmarshal_PrivateKey l bs of
                    (x, None) \<Rightarrow>
                      (pre @ [Call_PKCS1 bs, Call_PKCS8 bs, Call_UnmarshalPrivate bs],
                       Return x None)
                  | (x, Some e3) \<Rightarrow>
                      (pre @ [Call_PKCS1 bs, Call_PKCS8 bs, Call_UnmarshalPrivate bs],
                       Return zero_PrivateKey (Some e3)))))"
proof -
  have ok: "Type blk = ''PRIVATE KEY'' \<or> Type blk = ''ENCRYPTED PRIVATE KEY''
             \<or> Type blk = ''RSA PRIVATE KEY''"
    using assms(3) by simp
  show ?thesis
    unfolding LoadPrivateKey_def Let_def
      decodeBlock_reaches [OF assms(1,2), of zero_PrivateKey]
    using ok
    by (simp add: privateCascade_def narrowPrivate_def split: sum.splits option.splits prod.splits)
qed

text \<open>
  The hypotheses of C2 hold for the collaborators \<open>lib0\<close>, where the three parsers fail
  one after the other.
\<close>

theorem C2_witness:
  "LoadPrivateKey lib0 [0x41] '''' =
     ([Call_Decode (TrimSpace [0x41]), Call_IsEncrypted block0, Call_PKCS1 (Bytes block0),
       Call_PKCS8 (Bytes block0), Call_UnmarshalPrivate (Bytes block0)],
      Return zero_PrivateKey
        (Some (foreignError ''asn1.SyntaxError'' ''asn1: syntax error: sequence truncated'')))"
proof -
  have t: "TrimSpace [0x41] = [0x41]" by code_simp
  have 1: "pem_Decode lib0 (TrimSpace [0x41]) = Some block0" by (simp add: t lib0_simps)
  have 2: "if IsEncryptedPEMBlock lib0 block0
           then DecryptPEMBlock lib0 block0 '''' = (Some block0, None) else block0 = block0"
    by (simp add: lib0_simps block0_def)
  have 3: "Type block0 \<in> {''PRIVATE KEY'', ''ENCRYPTED PRIVATE KEY'', ''RSA PRIVATE KEY''}"
    by (simp add: block0_def)
  show ?thesis
    using C2_private_cascade_order [OF 1 2 3] by (simp add: lib0_simps block0_def Let_def)
qed

lemma TrimSpace_A: "TrimSpace [0x41] = [0x41]"
  by code_simp

lemma decodeBlock_password:
  assumes "pem_Decode l (TrimSpace b) = Some blk" and "\<not> IsEncryptedPEMBlock l blk"
  shows "decodeBlock l key b p1 = decodeBlock l key b p2"
  using assms by (simp add: decodeBlock_def)

text \<open>
  Claim C10. When the block that \<open>pem.Decode\<close> finds is not encrypted, the calls and
  the result of \<open>LoadPrivateKey\<close>, and of \<open>LoadPublicKey\<close>, are the same for any two
  passphrases.
\<close>

theorem C10_passphrase_noninterference:
  assumes "pem_Decode l (TrimSpace b) = Some blk" and "\<not> IsEncryptedPEMBlock l blk"
  shows "LoadPrivateKey l b p1 = LoadPrivateKey l b p2
       \<and> LoadPublicKey l b p1 = LoadPublicKey l b p2"
  unfolding LoadPrivateKey_def LoadPublicKey_def Let_def
    decodeBlock_password [OF assms, of _ p1 p2]
  by simp

text \<open>The hypotheses of C10 hold for \<open>lib0\<close>, whose block has no headers.\<close>

theorem C10_witness:
  "LoadPrivateKey lib0 [0x41] ''secret'' = LoadPrivateKey lib0 [0x41] ''''
   \<and> LoadPublicKey lib0 [0x41] ''secret'' = LoadPublicKey lib0 [0x41] ''''"
proof -
  have 1: "pem_Decode lib0 (TrimSpace [0x41]) = Some block0"
    by (simp add: TrimSpace_A lib0_simps)
  have 2: "\<not> IsEncryptedPEMBlock lib0 block0"
    by (simp add: lib0_simps block0_def)
  show ?thesis by (rule C10_passphrase_noninterference [OF 1 2])
qed

text \<open>
  Claim C9. ASCII white space (tab, line feed, vertical tab, form feed, carriage return,
  space) put before and after a buffer changes neither the calls nor the result of
  \<open>LoadPrivateKey\<close> and \<open>LoadPublicKey\<close>, for every buffer, passphrase and collaborators.
\<close>

theorem C9_whitespace_invariance:
  assumes "\<forall>c\<in>set pre. asciiSpace c" and "\<forall>c\<in>set post. asciiSpace c"
  shows "LoadPrivateKey l (pre @ b @ post) pw = LoadPrivateKey l b pw
       \<and> LoadPublicKey l (pre @ b @ post) pw = LoadPublicKey l b pw"
  by (simp add: LoadPrivateKey_def LoadPublicKey_def decodeBlock_def TrimSpace_pad [OF assms])

text \<open>An instance of C9: a space and a tab before the buffer, CR LF after it.\<close>

theorem C9_witness:
  "LoadPrivateKey lib0 ([0x20, 0x09] @ [0x41] @ [0x0D, 0x0A]) '''' = LoadPrivateKey lib0 [0x41] ''''
   \<and> LoadPublicKey lib0 ([0x20, 0x09] @ [0x41] @ [0x0D, 0x0A]) '''' = LoadPublicKey lib0 [0x41] ''''"
proof -
  have 1: "\<forall>c\<in>set [0x20, 0x09 :: byte]. asciiSpace c" by (simp add: asciiSpace_def)
  have 2: "\<forall>c\<in>set [0x0D, 0x0A :: byte]. asciiSpace c" by (simp add: asciiSpace_def)
  show ?thesis by (rule C9_whitespace_invariance [OF 1 2])
qed

text \<open>
  Claim C8. When the block is encrypted and \<open>DecryptPEMBlock\<close> returns an error, both
  loaders return the zero key and an error whose text is \<open>Error decrypting PEM block: \<close>
  followed by the text of that error; the calls made are \<open>pem.Decode\<close>,
  \<open>IsEncryptedPEMBlock\<close> and one \<open>DecryptPEMBlock\<close>, and no parser is called.
\<close>

theorem C8_decryption_failure:
  assumes "pem_Decode l (TrimSpace b) = Some blk"
    and "IsEncryptedPEMBlock l blk"
    and "DecryptPEMBlock l blk pw = (ob, Some e)"
  shows "LoadPrivateKey l b pw =
           ([Call_Decode (TrimSpace b), Call_IsEncrypted blk, Call_Decrypt blk pw],
            Return zero_PrivateKey
              (Some (errorString (''Error decrypting PEM block: '' @ Error e))))
       \<and> LoadPublicKey l b pw =
           ([Call_Decode (TrimSpace b), Call_IsEncrypted blk, Call_Decrypt blk pw],
            Return zero_PublicKey
              (Some (errorString (''Error decrypting PEM block: '' @ Error e))))"
  using assms by (cases ob) (simp_all add: LoadPrivateKey_def LoadPublicKey_def decodeBlock_def)

lemma decodeBlock_Return:
  "decodeBlock l key b pw = (t, Inl (Return k oe)) \<Longrightarrow> k = key"
  by (auto simp: decodeBlock_def Let_def split: option.splits if_splits prod.splits)

lemma narrowPrivate_error: "narrowPrivate key g = Return k (Some e) \<Longrightarrow> k = key"
  by (cases g) (simp_all add: narrowPrivate_def)

lemma narrowPublic_error: "narrowPublic key g = Return k (Some e) \<Longrightarrow> k = key"
  by (cases g) (simp_all add: narrowPublic_def)

lemma LoadPrivateKey_atomic:
  assumes "snd (LoadPrivateKey l b pw) = Return k (Some e)"
  shows "k = zero_PrivateKey"
proof -
  obtain t r where d: "decodeBlock l zero_PrivateKey b pw = (t, r)" by force
  obtain t2 c where c: "privateCascade l (Bytes (projr r)) = (t2, c)" by force
  show ?thesis
  proof (cases r)
    case (Inl res)
    with assms d show ?thesis
      by (auto simp: LoadPrivateKey_def dest: decodeBlock_Return)
  next
    case (Inr blk)
    with assms d c show ?thesis
      by (auto simp: LoadPrivateKey_def dest: narrowPrivate_error split: if_splits sum.splits)
  qed
qed

lemma LoadPublicKey_atomic:
  assumes "snd (LoadPublicKey l b pw) = Return k (Some e)"
  shows "k = zero_PublicKey"
proof -
  obtain t r where d: "decodeBlock l zero_PublicKey b pw = (t, r)" by force
  obtain t2 c where c: "publicCascade l (Bytes (projr r)) = (t2, c)" by force
  show ?thesis
  proof (cases r)
    case (Inl res)
    with assms d show ?thesis
      by (auto simp: LoadPublicKey_def dest: decodeBlock_Return)
  next
    case (Inr blk)
    with assms d c show ?thesis
      by (auto simp: LoadPublicKey_def dest: narrowPublic_error split: if_splits sum.splits)
  qed
qed

text \<open>
  Claim C7. Whenever \<open>LoadPrivateKey\<close> or \<open>LoadPublicKey\<close> returns an error that is
  not \<open>nil\<close>, the key it returns is the zero value.
\<close>

theorem C7_atomicity:
  "(snd (LoadPrivateKey l b pw) = Return k (Some e) \<longrightarrow> k = zero_PrivateKey)
   \<and> (snd (LoadPublicKey l b pw) = Return pk (Some e') \<longrightarrow> pk = zero_PublicKey)"
  using LoadPrivateKey_atomic LoadPublicKey_atomic by blast

text \<open>
  An instance of C7 with \<open>lib0\<close>: \<open>asn1.Unmarshal\<close> fails after it has written into
  its target \<open>x\<close>, and both loaders still return the zero key.
\<close>

theorem C7_witness:
  "snd (LoadPrivateKey lib0 [0x41] []) =
     Return zero_PrivateKey
       (Some (foreignError ''asn1.SyntaxError'' ''asn1: syntax error: sequence truncated''))
   \<and> snd (LoadPublicKey lib0 [0x41] []) =
     Return zero_PublicKey
       (Some (foreignError ''asn1.SyntaxError'' ''asn1: syntax error: sequence truncated''))"
  using C7_atomicity [of lib0 "[0x41]" "[]" zero_PrivateKey
      "foreignError ''asn1.SyntaxError'' ''asn1: syntax error: sequence truncated''"
      zero_PublicKey
      "foreignError ''asn1.SyntaxError'' ''asn1: syntax error: sequence truncated''"]
  by (simp add: LoadPrivateKey_def LoadPublicKey_def decodeBlock_def privateCascade_def
      publicCascade_def TrimSpace_A lib0_simps block0_def)

text \<open>The hypotheses of C8 hold for \<open>lib_enc\<close>, whose block has a \<open>DEK-Info\<close> header.\<close>

theorem C8_witness:
  "LoadPrivateKey lib_enc [0x41] ''wrong'' =
     ([Call_Decode (TrimSpace [0x41]), Call_IsEncrypted block_enc, Call_Decrypt block_enc ''wrong''],
      Return zero_PrivateKey (Some (errorString
        ''Error decrypting PEM block: x509: decryption password incorrect'')))
   \<and> LoadPublicKey lib_enc [0x41] ''wrong'' =
     ([Call_Decode (TrimSpace [0x41]), Call_IsEncrypted block_enc, Call_Decrypt block_enc ''wrong''],
      Return zero_PublicKey (Some (errorString
        ''Error decrypting PEM block: x509: decryption password incorrect'')))"
proof -
  have 1: "pem_Decode lib_enc (TrimSpace [0x41]) = Some block_enc"
    by (simp add: TrimSpace_A lib_enc_def)
  have 2: "IsEncryptedPEMBlock lib_enc block_enc"
    by (simp add: lib_enc_def lib0_simps block_enc_def)
  have 3: "DecryptPEMBlock lib_enc block_enc ''wrong'' =
      (None, Some (foreignError ''x509.IncorrectPasswordError''
        ''x509: decryption password incorrect''))"
    by (simp add: lib_enc_def lib0_simps)
  show ?thesis using C8_decryption_failure [OF 1 2 3] by simp
qed

text \<open>
  Claim C3. For a block with one of the five labels of the public path, \<open>LoadPublicKey\<close>
  calls \<open>ParsePKIXPublicKey\<close>, then \<open>ParsePKCS1PrivateKey\<close>, then
  \<open>ParsePKCS8PrivateKey\<close>, then \<open>asn1.Unmarshal\<close> into a \<open>rsa.PublicKey\<close>, each only
  when all the earlier ones failed; the first success ends the cascade and decides the
  result, and when all four fail the error returned is the one of \<open>asn1.Unmarshal\<close>.
\<close>

theorem C3_public_cascade_order:
  assumes "pem_Decode l (TrimSpace b) = Some blk0"
    and "if IsEncryptedPEMBlock l blk0 then DecryptPEMBlock l blk0 pw = (Some blk, None)
         else blk = blk0"
    and "Type blk \<in> {''PUBLIC KEY'', ''PRIVATE KEY'', ''ENCRYPTED PRIVATE KEY'',
                       ''RSA PUBLIC KEY'', ''RSA PRIVATE KEY''}"
  shows "LoadPublicKey l b pw =
    (let pre = [Call_Decode (TrimSpace b), Call_IsEncrypted blk0]
                 @ (if IsEncryptedPEMBlock l blk0 then [Call_Decrypt blk0 pw] else []);
         bs = Bytes blk
     in case ParsePKIXPublicKey l bs of
          Inr g \<Rightarrow> (pre @ [Call_PKIX bs], narrowPublic zero_PublicKey g)
        | Inl e0 \<Rightarrow>
            (case ParsePKCS1PrivateKey l bs of
               Inr k \<Rightarrow> (pre @ [Call_PKIX bs, Call_PKCS1 bs], Return (PublicKey k) None)
             | Inl e1 \<Rightarrow>
                 (case ParsePKCS8PrivateKey l bs of
                    Inr g \<Rightarrow>
                      (pre @ [Call_PKIX bs, Call_PKCS1 bs, Call_PKCS8 bs],
                       narrowPublic zero_PublicKey g)
                  | Inl e2 \<Rightarrow>
                      (case Unmarshal_PublicKey l bs of
                         (x, None) \<Rightarrow>
                           (pre @ [Call_PKIX bs, Call_PKCS1 bs, Call_PKCS8 bs,
                                   Call_UnmarshalPublic bs],
                            Return x None)
                       | (x, Some e3) \<Rightarrow>
                           (pre @ [Call_PKIX bs, Call_PKCS1 bs, Call_PKCS8 bs,
                                   Call_UnmarshalPublic bs],
                            Return zero_PublicKey (Some e3))))))"
proof -
  have ok: "Type blk = ''PUBLIC KEY'' \<or> Type blk = ''PRIVATE KEY''
             \<or> Type blk = ''ENCRYPTED PRIVATE KEY''
             \<or> Type blk = ''RSA PUBLIC KEY'' \<or> Type blk = ''RSA PRIVATE KEY''"
    using assms(3) by simp
  show ?thesis
    unfolding LoadPublicKey_def Let_def
      decodeBlock_reaches [OF assms(1,2), of zero_PublicKey]
    using ok
    by (simp add: publicCascade_def narrowPublic_def split: sum.splits option.splits prod.splits)
qed

text \<open>
  The hypotheses of C3 hold for \<open>lib_pkcs1\<close>: the PKIX parser fails, the PKCS#1 parser
  gives \<open>key0\<close>, and no later parser is called.
\<close>

theorem C3_witness:
  "LoadPublicKey lib_pkcs1 [0x41] '''' =
     ([Call_Decode (TrimSpace [0x41]), Call_IsEncrypted block0, Call_PKIX (Bytes block0),
       Call_PKCS1 (Bytes block0)],
      Return \<lparr>N = Some 3233, E = 17\<rparr> None)"
proof -
  have 1: "pem_Decode lib_pkcs1 (TrimSpace [0x41]) = Some block0"
    by (simp add: TrimSpace_A lib_pkcs1_def lib0_simps)
  have 2: "if IsEncryptedPEMBlock lib_pkcs1 block0
           then DecryptPEMBlock lib_pkcs1 block0 '''' = (Some block0, None) else block0 = block0"
    by (simp add: lib_pkcs1_def lib0_simps block0_def)
  have 3: "Type block0 \<in> {''PUBLIC KEY'', ''PRIVATE KEY'', ''ENCRYPTED PRIVATE KEY'',
                       ''RSA PUBLIC KEY'', ''RSA PRIVATE KEY''}"
    by (simp add: block0_def)
  show ?thesis
    using C3_public_cascade_order [OF 1 2 3]
    by (simp add: lib_pkcs1_def lib0_simps block0_def key0_def Let_def)
qed

lemma fst_LoadPrivateKey_accepted:
  assumes "decodeBlock l zero_PrivateKey b pw = (pre, Inr blk)"
    and "Type blk = ''PRIVATE KEY'' \<or> Type blk = ''ENCRYPTED PRIVATE KEY''
         \<or> Type blk = ''RSA PRIVATE KEY''"
  shows "fst (LoadPrivateKey l b pw) = pre @ fst (privateCascade l (Bytes blk))"
proof -
  obtain t2 c where c: "privateCascade l (Bytes blk) = (t2, c)" by force
  show ?thesis
    using assms(2) c by (cases c) (auto simp: LoadPrivateKey_def assms(1))
qed

lemma fst_LoadPublicKey_accepted:
  assumes "decodeBlock l zero_PublicKey b pw = (pre, Inr blk)"
    and "Type blk = ''PUBLIC KEY'' \<or> Type blk = ''PRIVATE KEY''
         \<or> Type blk = ''ENCRYPTED PRIVATE KEY''
         \<or> Type blk = ''RSA PUBLIC KEY'' \<or> Type blk = ''RSA PRIVATE KEY''"
  shows "fst (LoadPublicKey l b pw) = pre @ fst (publicCascade l (Bytes blk))"
proof -
  obtain t2 c where c: "publicCascade l (Bytes blk) = (t2, c)" by force
  show ?thesis
    using assms(2) c by (cases c) (auto simp: LoadPublicKey_def assms(1))
qed

lemma LoadPrivateKey_rejected:
  assumes "decodeBlock l zero_PrivateKey b pw = (pre, Inr blk)"
    and "\<not> (Type blk = ''PRIVATE KEY'' \<or> Type blk = ''ENCRYPTED PRIVATE KEY''
         \<or> Type blk = ''RSA PRIVATE KEY'')"
  shows "LoadPrivateKey l b pw =
    (pre, Return zero_PrivateKey (Some (errorString
       (''Unsupported PEM block type '' @ Quote l (Type blk)))))"
  using assms(2) unfolding LoadPrivateKey_def Let_def assms(1) by simp

lemma LoadPublicKey_rejected:
  assumes "decodeBlock l zero_PublicKey b pw = (pre, Inr blk)"
    and "\<not> (Type blk = ''PUBLIC KEY'' \<or> Type blk = ''PRIVATE KEY''
         \<or> Type blk = ''ENCRYPTED PRIVATE KEY''
         \<or> Type blk = ''RSA PUBLIC KEY'' \<or> Type blk = ''RSA PRIVATE KEY'')"
  shows "LoadPublicKey l b pw =
    (pre, Return zero_PublicKey (Some (errorString
       (''Unsupported PEM block type '' @ Quote l (Type blk)))))"
  using assms(2) unfolding LoadPublicKey_def Let_def assms(1) by simp

lemma PKCS1_in_privateCascade: "Call_PKCS1 bs \<in> set (fst (privateCascade l bs))"
  by (simp add: privateCascade_def split: sum.splits option.splits prod.splits)

lemma PKIX_in_publicCascade: "Call_PKIX bs \<in> set (fst (publicCascade l bs))"
  by (simp add: publicCascade_def split: sum.splits option.splits prod.splits)

lemma snd_LoadPrivateKey_accepted:
  assumes "decodeBlock l zero_PrivateKey b pw = (pre, Inr blk)"
    and "Type blk = ''PRIVATE KEY'' \<or> Type blk = ''ENCRYPTED PRIVATE KEY''
         \<or> Type blk = ''RSA PRIVATE KEY''"
    and "snd (privateCascade l (Bytes blk)) = Inr g"
  shows "snd (LoadPrivateKey l b pw) = narrowPrivate zero_PrivateKey g"
proof -
  obtain t2 c where c: "privateCascade l (Bytes blk) = (t2, c)" by force
  show ?thesis
    using assms(2,3) c by (cases c) (auto simp: LoadPrivateKey_def assms(1))
qed

lemma snd_LoadPublicKey_accepted:
  assumes "decodeBlock l zero_PublicKey b pw = (pre, Inr blk)"
    and "Type blk = ''PUBLIC KEY'' \<or> Type blk = ''PRIVATE KEY''
         \<or> Type blk = ''ENCRYPTED PRIVATE KEY''
         \<or> Type blk = ''RSA PUBLIC KEY'' \<or> Type blk = ''RSA PRIVATE KEY''"
    and "snd (publicCascade l (Bytes blk)) = Inr g"
  shows "snd (LoadPublicKey l b pw) = narrowPublic zero_PublicKey g"
proof -
  obtain t2 c where c: "publicCascade l (Bytes blk) = (t2, c)" by force
  show ?thesis
    using assms(2,3) c by (cases c) (auto simp: LoadPublicKey_def assms(1))
qed

text \<open>
  Claim C5. When the cascade of \<open>LoadPublicKey\<close> ends with a generic key \<open>g\<close>: a
  \<open>*rsa.PublicKey\<close> is returned as it is; of a \<open>*rsa.PrivateKey\<close> the embedded public
  key alone is returned, that is its modulus and public exponent; any other type gives
  the zero key and the error \<open>Unsupported key type\<close> followed by the name of the type. In
  \<open>LoadPrivateKey\<close> a \<open>*rsa.PrivateKey\<close> is returned as it is, and every other type,
  \<open>*rsa.PublicKey\<close> among them, gives the zero key and the same error.
\<close>

theorem C5_narrowing:
  assumes "pem_Decode l (TrimSpace b) = Some blk0"
    and "if IsEncryptedPEMBlock l blk0 then DecryptPEMBlock l blk0 pw = (Some blk, None)
         else blk = blk0"
  shows "(Type blk \<in> {''PUBLIC KEY'', ''PRIVATE KEY'', ''ENCRYPTED PRIVATE KEY'',
                       ''RSA PUBLIC KEY'', ''RSA PRIVATE KEY''} \<longrightarrow>
          snd (publicCascade l (Bytes blk)) = Inr g \<longrightarrow>
          snd (LoadPublicKey l b pw) =
            (case g of
               RSAPublicKey k \<Rightarrow> Return k None
             | RSAPrivateKey k \<Rightarrow> Return \<lparr>N = N (PublicKey k), E = E (PublicKey k)\<rparr> None
             | OtherKey ty \<Rightarrow>
                 Return zero_PublicKey (Some (errorString (''Unsupported key type '' @ ty)))))
       \<and> (Type blk \<in> {''PRIVATE KEY'', ''ENCRYPTED PRIVATE KEY'', ''RSA PRIVATE KEY''} \<longrightarrow>
          snd (privateCascade l (Bytes blk)) = Inr g' \<longrightarrow>
          snd (LoadPrivateKey l b pw) =
            (case g' of
               RSAPrivateKey k \<Rightarrow> Return k None
             | RSAPublicKey k \<Rightarrow>
                 Return zero_PrivateKey
                   (Some (errorString ''Unsupported key type *rsa.PublicKey''))
             | OtherKey ty \<Rightarrow>
                 Return zero_PrivateKey (Some (errorString (''Unsupported key type '' @ ty)))))"
proof -
  define pre where "pre = [Call_Decode (TrimSpace b), Call_IsEncrypted blk0]
                 @ (if IsEncryptedPEMBlock l blk0 then [Call_Decrypt blk0 pw] else [])"
  have d1: "decodeBlock l zero_PrivateKey b pw = (pre, Inr blk)"
    and d2: "decodeBlock l zero_PublicKey b pw = (pre, Inr blk)"
    unfolding pre_def by (rule decodeBlock_reaches [OF assms])+
  show ?thesis
    using snd_LoadPublicKey_accepted [OF d2, of g] snd_LoadPrivateKey_accepted [OF d1, of g']
    by (cases g; cases g') (auto simp: narrowPublic_def narrowPrivate_def)
qed

text \<open>
  The hypotheses of C5 hold for \<open>lib_ec\<close>, where the PKCS#8 parser succeeds with an
  elliptic-curve key: both loaders reject it by name.
\<close>

theorem C5_witness:
  "snd (LoadPublicKey lib_ec [0x41] []) =
     Return zero_PublicKey (Some (errorString ''Unsupported key type *ecdsa.PrivateKey''))
   \<and> snd (LoadPrivateKey lib_ec [0x41] []) =
     Return zero_PrivateKey (Some (errorString ''Unsupported key type *ecdsa.PrivateKey''))"
proof -
  have 1: "pem_Decode lib_ec (TrimSpace [0x41]) = Some block0"
    by (simp add: TrimSpace_A lib_ec_def lib0_simps)
  have 2: "if IsEncryptedPEMBlock lib_ec block0
           then DecryptPEMBlock lib_ec block0 [] = (Some block0, None) else block0 = block0"
    by (simp add: lib_ec_def lib0_simps block0_def)
  have 3: "Type block0 \<in> {''PUBLIC KEY'', ''PRIVATE KEY'', ''ENCRYPTED PRIVATE KEY'',
                       ''RSA PUBLIC KEY'', ''RSA PRIVATE KEY''}"
    and 4: "Type block0 \<in> {''PRIVATE KEY'', ''ENCRYPTED PRIVATE KEY'', ''RSA PRIVATE KEY''}"
    by (simp_all add: block0_def)
  have 5: "snd (publicCascade lib_ec (Bytes block0)) = Inr (OtherKey ''*ecdsa.PrivateKey'')"
    and 6: "snd (privateCascade lib_ec (Bytes block0)) = Inr (OtherKey ''*ecdsa.PrivateKey'')"
    by (simp_all add: publicCascade_def privateCascade_def lib_ec_def lib0_simps)
  show ?thesis
    using C5_narrowing [OF 1 2, of "OtherKey ''*ecdsa.PrivateKey''"
        "OtherKey ''*ecdsa.PrivateKey''"] 3 4 5 6
    by (simp add: block0_def)
qed

text \<open>
  Claim C6. The label of the block is compared, as a string, with three literals in
  \<open>LoadPrivateKey\<close> and with five in \<open>LoadPublicKey\<close>. With a label among them the
  loader goes on to the first parser of its cascade. With any other label it returns
  the zero key and the error \<open>Unsupported PEM block type\<close> followed by the quoted label,
  and the calls made are those of decoding and decrypting alone: no parser is called.
\<close>

theorem C6_label_dispatch:
  assumes "pem_Decode l (TrimSpace b) = Some blk0"
    and "if IsEncryptedPEMBlock l blk0 then DecryptPEMBlock l blk0 pw = (Some blk, None)
         else blk = blk0"
  shows "(let pre = [Call_Decode (TrimSpace b), Call_IsEncrypted blk0]
                 @ (if IsEncryptedPEMBlock l blk0 then [Call_Decrypt blk0 pw] else [])
     in (if Type blk \<in> {''PRIVATE KEY'', ''ENCRYPTED PRIVATE KEY'', ''RSA PRIVATE KEY''}
         then Call_PKCS1 (Bytes blk) \<in> set (fst (LoadPrivateKey l b pw))
         else LoadPrivateKey l b pw =
                (pre, Return zero_PrivateKey (Some (errorString
                   (''Unsupported PEM block type '' @ Quote l (Type blk))))))
      \<and> (if Type blk \<in> {''PUBLIC KEY'', ''PRIVATE KEY'', ''ENCRYPTED PRIVATE KEY'',
                       ''RSA PUBLIC KEY'', ''RSA PRIVATE KEY''}
         then Call_PKIX (Bytes blk) \<in> set (fst (LoadPublicKey l b pw))
         else LoadPublicKey l b pw =
                (pre, Return zero_PublicKey (Some (errorString
                   (''Unsupported PEM block type '' @ Quote l (Type blk)))))))"
proof -
  define pre where "pre = [Call_Decode (TrimSpace b), Call_IsEncrypted blk0]
                 @ (if IsEncryptedPEMBlock l blk0 then [Call_Decrypt blk0 pw] else [])"
  have d1: "decodeBlock l zero_PrivateKey b pw = (pre, Inr blk)"
    and d2: "decodeBlock l zero_PublicKey b pw = (pre, Inr blk)"
    unfolding pre_def by (rule decodeBlock_reaches [OF assms])+
  have p: "if Type blk \<in> {''PRIVATE KEY'', ''ENCRYPTED PRIVATE KEY'', ''RSA PRIVATE KEY''}
         then Call_PKCS1 (Bytes blk) \<in> set (fst (LoadPrivateKey l b pw))
         else LoadPrivateKey l b pw =
                (pre, Return zero_PrivateKey (Some (errorString
                   (''Unsupported PEM block type '' @ Quote l (Type blk)))))"
    using fst_LoadPrivateKey_accepted [OF d1] LoadPrivateKey_rejected [OF d1]
      PKCS1_in_privateCascade [of "Bytes blk" l]
    by auto
  have q: "if Type blk \<in> {''PUBLIC KEY'', ''PRIVATE KEY'', ''ENCRYPTED PRIVATE KEY'',
                       ''RSA PUBLIC KEY'', ''RSA PRIVATE KEY''}
         then Call_PKIX (Bytes blk) \<in> set (fst (LoadPublicKey l b pw))
         else LoadPublicKey l b pw =
                (pre, Return zero_PublicKey (Some (errorString
                   (''Unsupported PEM block type '' @ Quote l (Type blk)))))"
    using fst_LoadPublicKey_accepted [OF d2] LoadPublicKey_rejected [OF d2]
      PKIX_in_publicCascade [of "Bytes blk" l]
    by auto
  from p q show ?thesis unfolding Let_def pre_def by blast
qed

text \<open>
  The hypotheses of C6 hold for \<open>lib_lower\<close>, whose block is labelled
  \<open>rsa private key\<close> in lower case: both loaders reject it.
\<close>

theorem C6_witness:
  "LoadPrivateKey lib_lower [0x41] [] =
     ([Call_Decode (TrimSpace [0x41]), Call_IsEncrypted block_lower],
      Return zero_PrivateKey (Some (errorString
        (''Unsupported PEM block type '' @ [CHR 0x22] @ ''rsa private key'' @ [CHR 0x22]))))
   \<and> LoadPublicKey lib_lower [0x41] [] =
     ([Call_Decode (TrimSpace [0x41]), Call_IsEncrypted block_lower],
      Return zero_PublicKey (Some (errorString
        (''Unsupported PEM block type '' @ [CHR 0x22] @ ''rsa private key'' @ [CHR 0x22]))))"
proof -
  have 1: "pem_Decode lib_lower (TrimSpace [0x41]) = Some block_lower"
    by (simp add: TrimSpace_A lib_lower_def)
  have 2: "if IsEncryptedPEMBlock lib_lower block_lower
           then DecryptPEMBlock lib_lower block_lower [] = (Some block_lower, None)
           else block_lower = block_lower"
    by (simp add: lib_lower_def lib0_simps block_lower_def)
  show ?thesis
    using C6_label_dispatch [OF 1 2]
    by (simp add: lib_lower_def lib0_simps block_lower_def Let_def)
qed

text \<open>
  Claim C1 says that when the file cannot be read, the loaders from a file return the
  error of \<open>ioutil.ReadFile\<close> unchanged. They do not: the error is assigned and never
  read. With \<open>lib0\<close> the file \<open>missing.pem\<close> cannot be opened, \<open>ReadFile\<close> returns no
  bytes and a \<open>*fs.PathError\<close>, and both loaders go on to \<open>pem.Decode\<close> on the empty
  buffer and return \<open>Invalid PEM key file\<close>.
\<close>

theorem C1_read_error_replaced:
  "LoadPrivateKeyFromFile lib0 ''missing.pem'' [] =
     ([Call_ReadFile ''missing.pem'', Call_Decode []],
      Return zero_PrivateKey (Some (errorString ''Invalid PEM key file'')))
   \<and> LoadPublicKeyFromFile lib0 ''missing.pem'' [] =
     ([Call_ReadFile ''missing.pem'', Call_Decode []],
      Return zero_PublicKey (Some (errorString ''Invalid PEM key file'')))
   \<and> ReadFile lib0 ''missing.pem'' =
     ([], Some (foreignError ''*fs.PathError''
        ''open missing.pem: no such file or directory''))"
  by (simp add: LoadPrivateKeyFromFile_def LoadPublicKeyFromFile_def LoadPrivateKey_def
      LoadPublicKey_def decodeBlock_def TrimSpace_Nil lib0_simps)








end
